theory Spec2Isabelle
  imports Main
begin

section \<open>The empty producer of src/observable/EmptyObservable.ts\<close>

text \<open>
  \<^verbatim>\<open>EmptyObservable\<close> talks to two kinds of collaborator objects, a \<^verbatim>\<open>Subscriber\<close> and an
  optional \<^verbatim>\<open>Scheduler\<close>, and it extends \<^verbatim>\<open>Observable\<close>. None of the three classes is part
  of the sources at hand. The functions of \<^verbatim>\<open>EmptyObservable.ts\<close> are therefore embedded as
  programs that \<^emph>\<open>invoke\<close> methods of their collaborators and continue with whatever the
  method returned. What a function does is then independent of any assumption about the
  collaborators; a world that implements them is supplied afterwards.
\<close>

subsection \<open>Objects and calls\<close>

text \<open>An object is known by its identity.\<close>

type_synonym ref = nat

text \<open>The object literal \<^verbatim>\<open>{ subscriber }\<close> handed to the scheduler as the action's state.\<close>

record dispatch_state =
  subscriber :: ref

text \<open>
  The functions of this file that are passed around as values: the only one is the static
  method \<^verbatim>\<open>EmptyObservable.dispatch\<close>.
\<close>

datatype work_fn = Fn_dispatch

text \<open>The three methods of a \<^verbatim>\<open>Subscriber<T>\<close>: \<^verbatim>\<open>next(value)\<close>, \<^verbatim>\<open>error(err)\<close>, \<^verbatim>\<open>complete()\<close>.\<close>

datatype 'a notification = Next 'a | Error string | Complete

text \<open>
  The calls that leave the file: \<^verbatim>\<open>subscriber.m(...)\<close>, \<^verbatim>\<open>scheduler.schedule(work, delay, state)\<close>
  and \<^verbatim>\<open>super()\<close>, the constructor of \<^verbatim>\<open>Observable\<close> called with no argument.
\<close>

datatype 'a call =
    Subscriber ref "'a notification"
  | Scheduler_schedule ref work_fn nat dispatch_state
  | Observable_constructor

text \<open>
  A program either returns, or invokes a call and continues with the value the call
  returned. A returned value is \<^verbatim>\<open>undefined\<close> (\<open>None\<close>) or an object (\<open>Some\<close> of its
  identity), which is all this file ever looks at or passes on.
\<close>

datatype ('a, 'r) prog =
    Return 'r
  | Invoke "'a call" "ref option \<Rightarrow> ('a, 'r) prog"

text \<open>
  The calls a program makes, in order, and the value it returns, when every call \<open>c\<close>
  returns \<open>\<rho> c\<close>.
\<close>

primrec calls :: "('a call \<Rightarrow> ref option) \<Rightarrow> ('a, 'r) prog \<Rightarrow> 'a call list" where
  "calls \<rho> (Return r) = []"
| "calls \<rho> (Invoke c k) = c # calls \<rho> (k (\<rho> c))"

primrec result :: "('a call \<Rightarrow> ref option) \<Rightarrow> ('a, 'r) prog \<Rightarrow> 'r" where
  "result \<rho> (Return r) = r"
| "result \<rho> (Invoke c k) = result \<rho> (k (\<rho> c))"

text \<open>
  Running a program in a world \<open>w\<close> whose collaborators are implemented by \<open>h\<close>: each call
  transforms the world and returns a value.
\<close>

primrec run :: "('a call \<Rightarrow> 'w \<Rightarrow> ref option \<times> 'w) \<Rightarrow> ('a, 'r) prog \<Rightarrow> 'w \<Rightarrow> 'r \<times> 'w" where
  "run h (Return r) w = (r, w)"
| "run h (Invoke c k) w = (case h c w of (v, w') \<Rightarrow> run h (k v) w')"

subsection \<open>The class\<close>

text \<open>
  An instance has one field, \<^verbatim>\<open>private scheduler?: Scheduler\<close>: \<^verbatim>\<open>undefined\<close> or a scheduler.
\<close>

record EmptyObservable =
  scheduler :: "ref option"

text \<open>
  A call may leave a trailing optional parameter out; JavaScript then binds the parameter
  to \<^verbatim>\<open>undefined\<close>, the value it also has when \<^verbatim>\<open>undefined\<close> is passed.
\<close>

definition optional_parameter :: "'x option list \<Rightarrow> 'x option" where
  "optional_parameter args = (case args of [] \<Rightarrow> None | a # _ \<Rightarrow> a)"

text \<open>
  \<^verbatim>\<open>constructor(private scheduler?: Scheduler) { super(); }\<close>: the base constructor runs
  first, with no argument, then the parameter property is stored.
\<close>

definition EmptyObservable_constructor :: "ref option \<Rightarrow> ('a, EmptyObservable) prog" where
  "EmptyObservable_constructor sch =
     Invoke Observable_constructor (\<lambda>_. Return \<lparr>scheduler = sch\<rparr>)"

text \<open>
  \<^verbatim>\<open>static create<T>(scheduler?: Scheduler) { return new EmptyObservable<T>(scheduler); }\<close>,
  applied to the arguments of the call: \<open>[]\<close> for \<^verbatim>\<open>create()\<close>, \<open>[None]\<close> for
  \<^verbatim>\<open>create(undefined)\<close>, \<open>[Some s]\<close> for \<^verbatim>\<open>create(s)\<close>.
\<close>

definition EmptyObservable_create :: "ref option list \<Rightarrow> ('a, EmptyObservable) prog" where
  "EmptyObservable_create args = EmptyObservable_constructor (optional_parameter args)"

text \<open>
  A function that receives an object of this file by reference returns, next to its own
  result, the object as it is when the function returns; a field the function had assigned
  would show there. \<^verbatim>\<open>static dispatch({ subscriber }) { subscriber.complete(); }\<close> returns
  nothing.
\<close>

definition EmptyObservable_dispatch :: "dispatch_state \<Rightarrow> ('a, unit \<times> dispatch_state) prog" where
  "EmptyObservable_dispatch st =
     Invoke (Subscriber (subscriber st) Complete) (\<lambda>_. Return ((), st))"

text \<open>
  \<^verbatim>\<open>_subscribe(subscriber)\<close>. The test \<^verbatim>\<open>if (scheduler)\<close> is on truthiness: an object is truthy,
  \<^verbatim>\<open>undefined\<close> is not. The first branch returns what \<^verbatim>\<open>schedule\<close> returned; the second has no
  \<^verbatim>\<open>return\<close>, so the call evaluates to \<^verbatim>\<open>undefined\<close>.
\<close>

definition EmptyObservable__subscribe ::
  "EmptyObservable \<Rightarrow> ref \<Rightarrow> ('a, ref option \<times> EmptyObservable) prog" where
  "EmptyObservable__subscribe this sub =
     (case scheduler this of
        Some sch \<Rightarrow>
          Invoke (Scheduler_schedule sch Fn_dispatch 0 \<lparr>subscriber = sub\<rparr>)
            (\<lambda>v. Return (v, this))
      | None \<Rightarrow>
          Invoke (Subscriber sub Complete) (\<lambda>_. Return (None, this)))"

text \<open>The body of a function passed as \<^verbatim>\<open>work\<close>, as a scheduler runs it on a state.\<close>

primrec work_body :: "work_fn \<Rightarrow> dispatch_state \<Rightarrow> ('a, unit \<times> dispatch_state) prog" where
  "work_body Fn_dispatch = EmptyObservable_dispatch"

section \<open>A world for the collaborators\<close>

text \<open>
  \<^verbatim>\<open>Observable.subscribe\<close>, \<^verbatim>\<open>Subscriber\<close>, \<^verbatim>\<open>Subscription\<close> and \<^verbatim>\<open>Scheduler\<close> are given here the
  behaviour that the specification describes for them (sections 3, 4.1 to 4.4), with the
  scheduler in its deferred, manually stepped form. The world keeps a log of every call
  made on a collaborator and of every user handler that ran.
\<close>

text \<open>Modelled from the spec: the "up to three optional callbacks" of a Consumer; a field
  tells whether the callback was supplied.\<close>

record handlers =
  on_next :: bool
  on_error :: bool
  on_complete :: bool

text \<open>Modelled from the spec: a Consumer (the \<^verbatim>\<open>Subscriber\<close> class, absent from the sources):
  its callbacks, the flag \<open>stopped\<close>, and its own Subscription state, the flag \<open>closed\<close>
  and the teardown units it owns.\<close>

record consumer =
  callbacks :: handlers
  stopped :: bool
  closed :: bool
  units :: "ref list"

text \<open>Modelled from the spec: an Action, "the deferred invocation of work(state); itself a
  Subscription", pending on the scheduler \<open>owner\<close> until the time \<open>due\<close>.\<close>

record action =
  handle :: ref
  owner :: ref
  due :: nat
  work :: work_fn
  state :: dispatch_state

text \<open>Modelled from the spec: what an observer of the collaborators can see happen. A
  method of a collaborator is called; a user's handler runs; an error that found no handler
  is surfaced as an "unhandled-error fault".\<close>

datatype 'a event =
    Called "'a call"
  | Handler ref "'a notification"
  | Unhandled_error ref string

text \<open>Modelled from the spec: the state of the collaborators. The events so far, the
  consumers by identity, the actions pending on the schedulers in the order they were
  scheduled, the clock of each scheduler, and the next identity to give out.\<close>

record 'a world =
  log :: "'a event list"
  consumers :: "ref \<Rightarrow> consumer"
  queue :: "action list"
  now :: "ref \<Rightarrow> nat"
  fresh :: ref

definition emit :: "'a event \<Rightarrow> 'a world \<Rightarrow> 'a world" where
  "emit e w = w\<lparr>log := log w @ [e]\<rparr>"

text \<open>The consumer, if any, that an event is a notification of.\<close>

fun notified :: "'a event \<Rightarrow> ref option" where
  "notified (Called (Subscriber r n)) = Some r"
| "notified (Called (Scheduler_schedule s f d st)) = None"
| "notified (Called Observable_constructor) = None"
| "notified (Handler r n) = Some r"
| "notified (Unhandled_error r e) = Some r"

definition notifications :: "ref \<Rightarrow> 'a world \<Rightarrow> 'a event list" where
  "notifications r w = filter (\<lambda>e. notified e = Some r) (log w)"

text \<open>Modelled from the spec: closing the handle of an Action (class absent from the
  sources). "Cancelling before execution prevents it; cancelling during/after is a
  no-op": a pending action leaves the queue, anything else is left alone.\<close>

definition Action_close :: "ref \<Rightarrow> 'a world \<Rightarrow> 'a world" where
  "Action_close h w = w\<lparr>queue := filter (\<lambda>a. handle a \<noteq> h) (queue w)\<rparr>"

text \<open>Modelled from the spec: \<^verbatim>\<open>Subscription.close()\<close> on a Consumer's own Subscription
  (class absent from the sources). "Idempotent; recursively closes all children"; closing
  also "flips the Consumer's stopped flag".\<close>

definition Subscription_close :: "ref \<Rightarrow> 'a world \<Rightarrow> 'a world" where
  "Subscription_close r w =
     (let c = consumers w r in
      if closed c then w
      else fold Action_close (units c)
             (w\<lparr>consumers := (consumers w)(r := c\<lparr>stopped := True, closed := True, units := []\<rparr>)\<rparr>))"

text \<open>Modelled from the spec: \<^verbatim>\<open>Subscription.add(unit)\<close> (class absent from the sources).
  It "registers a child; if the parent is already closed, the child is torn down
  immediately instead of retained". Nothing is registered for \<^verbatim>\<open>undefined\<close>.\<close>

definition Subscription_add :: "ref \<Rightarrow> ref option \<Rightarrow> 'a world \<Rightarrow> 'a world" where
  "Subscription_add r t w =
     (case t of
        None \<Rightarrow> w
      | Some h \<Rightarrow>
          (let c = consumers w r in
           if closed c then Action_close h w
           else w\<lparr>consumers := (consumers w)(r := c\<lparr>units := units c @ [h]\<rparr>)\<rparr>))"

text \<open>Modelled from the spec: the methods of a Consumer (the \<^verbatim>\<open>Subscriber\<close> class, absent
  from the sources). "Each first checks stopped; if set, the call is a no-op. next
  forwards to the user's next-handler if present. error and complete each: set stopped =
  true, invoke the matching user handler (missing error handler: surface an
  unhandled-error fault; missing complete handler is fine), then close the Consumer's own
  Subscription."\<close>

definition Subscriber_method :: "ref \<Rightarrow> 'a notification \<Rightarrow> 'a world \<Rightarrow> 'a world" where
  "Subscriber_method r n w =
     (let c = consumers w r;
          w' = w\<lparr>consumers := (consumers w)(r := c\<lparr>stopped := True\<rparr>)\<rparr>
      in
      if stopped c then w
      else (case n of
              Next v \<Rightarrow> if on_next (callbacks c) then emit (Handler r (Next v)) w else w
            | Error e \<Rightarrow>
                Subscription_close r
                  (emit (if on_error (callbacks c) then Handler r (Error e)
                         else Unhandled_error r e) w')
            | Complete \<Rightarrow>
                Subscription_close r
                  (if on_complete (callbacks c) then emit (Handler r Complete) w' else w')))"

text \<open>Modelled from the spec: \<^verbatim>\<open>Scheduler.schedule(work, delay, state)\<close> of a deferred
  scheduler (class absent from the sources): it "queues work for execution no earlier
  than delay after scheduling" and "returns a Subscription-compatible handle", here a new
  object.\<close>

definition Scheduler_method :: "ref \<Rightarrow> work_fn \<Rightarrow> nat \<Rightarrow> dispatch_state \<Rightarrow> 'a world \<Rightarrow> ref option \<times> 'a world" where
  "Scheduler_method s f d st w =
     (Some (fresh w),
      w\<lparr>queue := queue w @ [\<lparr>handle = fresh w, owner = s, due = now w s + d, work = f, state = st\<rparr>],
        fresh := Suc (fresh w)\<rparr>)"

text \<open>Modelled from the spec: the collaborators' side of a call. Every call is logged,
  then carried out by the object it is made on; the constructor of \<^verbatim>\<open>Observable\<close> (class
  absent from the sources) does nothing more, as "constructing a Producer performs no
  work".\<close>

definition perform :: "'a call \<Rightarrow> 'a world \<Rightarrow> ref option \<times> 'a world" where
  "perform c w =
     (case c of
        Subscriber r n \<Rightarrow> (None, Subscriber_method r n (emit (Called c) w))
      | Scheduler_schedule s f d st \<Rightarrow> Scheduler_method s f d st (emit (Called c) w)
      | Observable_constructor \<Rightarrow> (None, emit (Called c) w))"

text \<open>Modelled from the spec: \<^verbatim>\<open>Observable.subscribe\<close> (class absent from the sources)
  applied to a raw handler set. It "normalizes raw handler sets into a Consumer", a new
  one, "invokes the generation logic exactly once with that Consumer, returns a
  Subscription for the attachment", the Consumer's own; "any teardown value returned by
  the generation logic is registered as a child of that Subscription". The generation
  logic of this file never throws.\<close>

definition Observable_subscribe :: "EmptyObservable \<Rightarrow> handlers \<Rightarrow> 'a world \<Rightarrow> ref \<times> 'a world" where
  "Observable_subscribe this hs w =
     (let r = fresh w;
          c = \<lparr>callbacks = hs, stopped = False, closed = False, units = []\<rparr>;
          w1 = w\<lparr>consumers := (consumers w)(r := c), fresh := Suc r\<rparr>
      in case run perform (EmptyObservable__subscribe this r) w1 of
           ((t, this'), w2) \<Rightarrow> (r, Subscription_add r t w2))"

text \<open>Modelled from the spec: the execution of a pending Action by its scheduler (class
  absent from the sources): the action leaves the queue and \<open>work(state)\<close> runs. An action
  that is no longer pending does not run.\<close>

definition run_action :: "ref \<Rightarrow> 'a world \<Rightarrow> 'a world" where
  "run_action h w =
     (case find (\<lambda>a. handle a = h) (queue w) of
        None \<Rightarrow> w
      | Some a \<Rightarrow> snd (run perform (work_body (work a) (state a)) (Action_close h w)))"

text \<open>Modelled from the spec: one manual step of the test scheduler \<open>s\<close> (class absent from
  the sources): its clock moves on by \<open>d\<close> and every action of \<open>s\<close> that is due by then is
  executed, earliest first, in "FIFO order among actions scheduled for the same due
  time".\<close>

definition advance :: "ref \<Rightarrow> nat \<Rightarrow> 'a world \<Rightarrow> 'a world" where
  "advance s d w =
     (let t = now w s + d;
          ready = sort_key due (filter (\<lambda>a. owner a = s \<and> due a \<le> t) (queue w))
      in fold run_action (map handle ready) (w\<lparr>now := (now w)(s := t)\<rparr>))"

text \<open>Modelled from the spec: what can happen in the world after an attachment. A
  scheduler is stepped by hand, a Subscription is closed, or an empty producer is
  subscribed to.\<close>

inductive step :: "'a world \<Rightarrow> 'a world \<Rightarrow> bool" where
  step_advance: "step w (advance s d w)"
| step_close: "step w (Subscription_close r w)"
| step_subscribe: "step w (snd (Observable_subscribe this hs w))"

text \<open>Objects are allocated in order: the identities found in a world are older than the
  next one to be given out.\<close>

definition allocated :: "'a world \<Rightarrow> bool" where
  "allocated w \<longleftrightarrow>
     (\<forall>a \<in> set (queue w). handle a < fresh w \<and> subscriber (state a) < fresh w) \<and>
     (\<forall>r < fresh w. \<forall>h \<in> set (units (consumers w r)). h < fresh w) \<and>
     (\<forall>e \<in> set (log w). \<forall>r \<in> set_option (notified e). r < fresh w)"

text \<open>The same with nothing left over at the identities not given out yet, which is how
  a world that started as \<open>initial\<close> looks.\<close>

definition tidy :: "'a world \<Rightarrow> bool" where
  "tidy w \<longleftrightarrow>
     (\<forall>a \<in> set (queue w). handle a < fresh w \<and> subscriber (state a) < fresh w) \<and>
     (\<forall>r. \<forall>h \<in> set (units (consumers w r)). h < fresh w) \<and>
     (\<forall>e \<in> set (log w). \<forall>r \<in> set_option (notified e). r < fresh w)"

text \<open>The world before anything happened.\<close>

definition initial :: "'a world" where
  "initial =
     \<lparr>log = [],
      consumers = (\<lambda>_. \<lparr>callbacks = \<lparr>on_next = False, on_error = False, on_complete = False\<rparr>,
                         stopped = False, closed = False, units = []\<rparr>),
      queue = [], now = (\<lambda>_. 0), fresh = 0\<rparr>"

text \<open>Two situations that the proofs about attachments go through. No pending action is
  going to notify the consumer \<open>r\<close>.\<close>

definition untargeted :: "ref \<Rightarrow> 'a world \<Rightarrow> bool" where
  "untargeted r w \<longleftrightarrow> (\<forall>a \<in> set (queue w). subscriber (state a) \<noteq> r)"

text \<open>The consumer \<open>r\<close>, made from the handlers \<open>hs\<close>, is active and owns the pending action
  \<open>a\<close>, the only action that is going to notify it; nobody else can cancel \<open>a\<close>.\<close>

definition attached :: "ref \<Rightarrow> handlers \<Rightarrow> action \<Rightarrow> 'a world \<Rightarrow> bool" where
  "attached r hs a w \<longleftrightarrow>
     subscriber (state a) = r \<and> a \<in> set (queue w) \<and>
     (\<forall>b \<in> set (queue w). handle b = handle a \<or> subscriber (state b) = r \<longrightarrow> b = a) \<and>
     consumers w r = \<lparr>callbacks = hs, stopped = False, closed = False, units = [handle a]\<rparr> \<and>
     (\<forall>b \<in> set (queue w). b \<noteq> a \<longrightarrow> handle a \<notin> set (units (consumers w (subscriber (state b)))))"

text \<open>The notifications a consumer made from the handlers \<open>hs\<close> gets from a single
  \<^verbatim>\<open>complete()\<close>: the call, and the user's handler if there is one.\<close>

definition completion :: "ref \<Rightarrow> handlers \<Rightarrow> 'a event list" where
  "completion r hs =
     Called (Subscriber r Complete) # (if on_complete hs then [Handler r Complete] else [])"

text \<open>A world in which one attachment is waiting for the scheduler \<open>7\<close>.\<close>

definition one_pending :: "nat world" where
  "one_pending =
     snd (Observable_subscribe \<lparr>scheduler = Some 7\<rparr>
            \<lparr>on_next = False, on_error = False, on_complete = True\<rparr> initial)"

section \<open>What the functions of the file do\<close>

text \<open>
  The statements of this section are about the embedded functions alone: they hold whatever
  the collaborators return (\<open>\<rho>\<close>) and however they are implemented (\<open>h\<close>).
\<close>

text \<open>
  C2. For every subscriber and every scheduler, \<^verbatim>\<open>_subscribe\<close> on an empty producer created
  with that scheduler makes exactly one call, \<^verbatim>\<open>scheduler.schedule(dispatch, 0, { subscriber })\<close>,
  and returns what that call returned; it makes no call on the subscriber. In a world, all
  that happens before it returns is what the scheduler's \<^verbatim>\<open>schedule\<close> does.
\<close>

theorem subscribe_with_scheduler_schedules_dispatch:
  "calls \<rho> (EmptyObservable__subscribe (result \<rho> (EmptyObservable_create [Some sch])) sub)
     = [Scheduler_schedule sch Fn_dispatch 0 \<lparr>subscriber = sub\<rparr>] \<and>
   fst (result \<rho> (EmptyObservable__subscribe (result \<rho> (EmptyObservable_create [Some sch])) sub))
     = \<rho> (Scheduler_schedule sch Fn_dispatch 0 \<lparr>subscriber = sub\<rparr>) \<and>
   run h (EmptyObservable__subscribe (result \<rho> (EmptyObservable_create [Some sch])) sub) w
     = (case h (Scheduler_schedule sch Fn_dispatch 0 \<lparr>subscriber = sub\<rparr>) w of
          (v, w') \<Rightarrow> ((v, \<lparr>scheduler = Some sch\<rparr>), w'))"
  by (simp add: EmptyObservable__subscribe_def EmptyObservable_create_def
      EmptyObservable_constructor_def optional_parameter_def)

text \<open>
  C4. For every state object, \<^verbatim>\<open>dispatch\<close> makes exactly one call, \<^verbatim>\<open>complete()\<close> with no
  argument on the subscriber the state holds; it makes no other call, schedules nothing,
  leaves the state object as it was, and changes the world only through that call.
\<close>

theorem dispatch_only_completes:
  "calls \<rho> (EmptyObservable_dispatch st) = [Subscriber (subscriber st) Complete] \<and>
   result \<rho> (EmptyObservable_dispatch st) = ((), st) \<and>
   run h (EmptyObservable_dispatch st) w
     = (((), st), snd (h (Subscriber (subscriber st) Complete) w))"
  by (simp add: EmptyObservable_dispatch_def split: prod.splits)

text \<open>
  C5. However the producer was created, neither \<^verbatim>\<open>_subscribe\<close> nor the scheduled \<^verbatim>\<open>dispatch\<close>
  ever calls \<^verbatim>\<open>next\<close> or \<^verbatim>\<open>error\<close>, on any subscriber, with any value.
\<close>

theorem never_next_never_error:
  "Subscriber r (Next v)
     \<notin> set (calls \<rho> (EmptyObservable__subscribe (result \<rho> (EmptyObservable_create args)) sub)) \<and>
   Subscriber r (Error e)
     \<notin> set (calls \<rho> (EmptyObservable__subscribe (result \<rho> (EmptyObservable_create args)) sub)) \<and>
   Subscriber r (Next v) \<notin> set (calls \<rho> (EmptyObservable_dispatch st)) \<and>
   Subscriber r (Error e) \<notin> set (calls \<rho> (EmptyObservable_dispatch st))"
  by (simp add: EmptyObservable__subscribe_def EmptyObservable_dispatch_def
      EmptyObservable_create_def EmptyObservable_constructor_def split: option.splits)

text \<open>
  C6. Construction does no work: for every argument list, \<^verbatim>\<open>create\<close> and the constructor
  call nothing but the base constructor, so no method of a subscriber and no
  \<^verbatim>\<open>scheduler.schedule\<close>, and the world changes only by what the base constructor does.
\<close>

theorem construction_calls_no_collaborator:
  "calls \<rho> (EmptyObservable_create args) = [Observable_constructor] \<and>
   calls \<rho> (EmptyObservable_constructor sch) = [Observable_constructor] \<and>
   run h (EmptyObservable_create args) w
     = (\<lparr>scheduler = optional_parameter args\<rparr>, snd (h Observable_constructor w)) \<and>
   run h (EmptyObservable_constructor sch) w
     = (\<lparr>scheduler = sch\<rparr>, snd (h Observable_constructor w))"
  by (simp add: EmptyObservable_create_def EmptyObservable_constructor_def split: prod.splits)

text \<open>
  C7. \<^verbatim>\<open>_subscribe\<close> never writes the producer: the object is the same after the call as
  before, its scheduler included, so a later attachment runs the same program as it would
  have run first.
\<close>

theorem subscribe_leaves_producer_unchanged:
  "snd (result \<rho> (EmptyObservable__subscribe this sub)) = this \<and>
   snd (fst (run h (EmptyObservable__subscribe this sub) w)) = this \<and>
   scheduler (snd (result \<rho> (EmptyObservable__subscribe this sub))) = scheduler this \<and>
   EmptyObservable__subscribe (snd (result \<rho> (EmptyObservable__subscribe this sub))) sub'
     = EmptyObservable__subscribe this sub'"
  by (simp add: EmptyObservable__subscribe_def split: option.splits prod.splits)

text \<open>
  C8. For every argument list, \<^verbatim>\<open>create\<close> returns a new \<^verbatim>\<open>EmptyObservable\<close>, initialised by
  the constructor of \<^verbatim>\<open>Observable\<close>, whose scheduler is exactly the scheduler supplied:
  \<^verbatim>\<open>undefined\<close> when none was.
\<close>

theorem create_returns_configured_producer:
  "result \<rho> (EmptyObservable_create args) = \<lparr>scheduler = optional_parameter args\<rparr> \<and>
   result \<rho> (EmptyObservable_create [Some sch]) = \<lparr>scheduler = Some sch\<rparr> \<and>
   result \<rho> (EmptyObservable_create []) = \<lparr>scheduler = None\<rparr> \<and>
   fst (run h (EmptyObservable_create args) w) = \<lparr>scheduler = optional_parameter args\<rparr> \<and>
   Observable_constructor \<in> set (calls \<rho> (EmptyObservable_create args))"
  by (simp add: EmptyObservable_create_def EmptyObservable_constructor_def
      optional_parameter_def split: prod.splits)

text \<open>
  C9. Without a scheduler \<^verbatim>\<open>_subscribe\<close> returns \<^verbatim>\<open>undefined\<close>, not an object; with a
  scheduler it returns what \<^verbatim>\<open>schedule\<close> returned, and that is the only handle it ever
  returns.
\<close>

theorem subscribe_returns_undefined_without_scheduler:
  "fst (result \<rho> (EmptyObservable__subscribe this sub))
     = (case scheduler this of
          None \<Rightarrow> None
        | Some sch \<Rightarrow> \<rho> (Scheduler_schedule sch Fn_dispatch 0 \<lparr>subscriber = sub\<rparr>)) \<and>
   fst (result \<rho> (EmptyObservable__subscribe (result \<rho> (EmptyObservable_create [])) sub)) = None \<and>
   fst (fst (run h (EmptyObservable__subscribe (result \<rho> (EmptyObservable_create [])) sub) w))
     = None"
  by (simp add: EmptyObservable__subscribe_def EmptyObservable_create_def
      EmptyObservable_constructor_def optional_parameter_def split: option.splits prod.splits)

text \<open>
  C10. \<^verbatim>\<open>create()\<close> and \<^verbatim>\<open>create(undefined)\<close> are the same program and give the same producer,
  and for every subscriber \<^verbatim>\<open>_subscribe\<close> on either is the branch that completes at once:
  the branch is chosen by the stored value, which is \<^verbatim>\<open>undefined\<close> in both.
\<close>

theorem create_undefined_is_create:
  "(EmptyObservable_create [] :: ('a, EmptyObservable) prog) = EmptyObservable_create [None] \<and>
   EmptyObservable__subscribe (result \<rho> (EmptyObservable_create [])) sub
     = EmptyObservable__subscribe (result \<rho> (EmptyObservable_create [None])) sub \<and>
   calls \<rho> (EmptyObservable__subscribe (result \<rho> (EmptyObservable_create [None])) sub)
     = [Subscriber sub Complete] \<and>
   calls \<rho> (EmptyObservable__subscribe (result \<rho> (EmptyObservable_create [])) sub)
     = [Subscriber sub Complete]"
  by (simp add: EmptyObservable__subscribe_def EmptyObservable_create_def
      EmptyObservable_constructor_def optional_parameter_def)

section \<open>Attachments in the world\<close>

subsection \<open>The collaborators in closed form\<close>

lemma fold_Action_close:
  "fold Action_close hs w = w\<lparr>queue := filter (\<lambda>a. handle a \<notin> set hs) (queue w)\<rparr>"
proof (induction hs arbitrary: w)
  case Nil
  then show ?case by simp
next
  case (Cons h hs)
  have "fold Action_close (h # hs) w = fold Action_close hs (Action_close h w)"
    by simp
  also have "\<dots> = (Action_close h w)\<lparr>queue := filter (\<lambda>a. handle a \<notin> set hs) (queue (Action_close h w))\<rparr>"
    by (rule Cons.IH)
  also have "\<dots> = w\<lparr>queue := filter (\<lambda>a. handle a \<notin> set (h # hs)) (queue w)\<rparr>"
    by (simp add: Action_close_def conj_commute)
  finally show ?case .
qed

lemma Subscription_close_eq:
  "Subscription_close r w =
     (if closed (consumers w r) then w
      else w\<lparr>consumers := (consumers w)(r := (consumers w r)\<lparr>stopped := True, closed := True, units := []\<rparr>),
             queue := filter (\<lambda>a. handle a \<notin> set (units (consumers w r))) (queue w)\<rparr>)"
  by (simp add: Subscription_close_def fold_Action_close Let_def)

lemma run_work_body:
  "run perform (work_body f st) w =
     (((), st), Subscriber_method (subscriber st) Complete (emit (Called (Subscriber (subscriber st) Complete)) w))"
  by (cases f) (simp add: EmptyObservable_dispatch_def perform_def)

lemma run_action_eq:
  "run_action h w =
     (case find (\<lambda>a. handle a = h) (queue w) of
        None \<Rightarrow> w
      | Some a \<Rightarrow> Subscriber_method (subscriber (state a)) Complete
                   (emit (Called (Subscriber (subscriber (state a)) Complete)) (Action_close h w)))"
  by (simp add: run_action_def run_work_body split: option.splits)

lemma Subscriber_method_Complete_eq:
  "Subscriber_method r Complete w =
     (let c = consumers w r in
      if stopped c then w
      else if closed c then
        w\<lparr>log := log w @ (if on_complete (callbacks c) then [Handler r Complete] else []),
          consumers := (consumers w)(r := c\<lparr>stopped := True\<rparr>)\<rparr>
      else
        w\<lparr>log := log w @ (if on_complete (callbacks c) then [Handler r Complete] else []),
          consumers := (consumers w)(r := c\<lparr>stopped := True, closed := True, units := []\<rparr>),
          queue := filter (\<lambda>a. handle a \<notin> set (units c)) (queue w)\<rparr>)"
  by (simp add: Subscriber_method_def Subscription_close_eq emit_def Let_def)

lemma notifications_log [simp]:
  "notifications r (w\<lparr>log := l\<rparr>) = filter (\<lambda>e. notified e = Some r) l"
  by (simp add: notifications_def)

lemma run_action_untargeted:
  assumes "untargeted r w"
  shows "untargeted r (run_action h w)"
    and "notifications r (run_action h w) = notifications r w"
    and "fresh (run_action h w) = fresh w"
  using assms
  by (auto simp: run_action_eq Subscriber_method_Complete_eq untargeted_def emit_def
      Action_close_def Let_def notifications_def find_Some_iff split: option.splits)

lemma Observable_subscribe_scheduled:
  "Observable_subscribe \<lparr>scheduler = Some s\<rparr> hs w =
     (fresh w,
      w\<lparr>log := log w @ [Called (Scheduler_schedule s Fn_dispatch 0 \<lparr>subscriber = fresh w\<rparr>)],
        consumers := (consumers w)
          (fresh w := \<lparr>callbacks = hs, stopped = False, closed = False, units = [Suc (fresh w)]\<rparr>),
        queue := queue w @
          [\<lparr>handle = Suc (fresh w), owner = s, due = now w s, work = Fn_dispatch,
            state = \<lparr>subscriber = fresh w\<rparr>\<rparr>],
        fresh := Suc (Suc (fresh w))\<rparr>)"
  by (simp add: Observable_subscribe_def EmptyObservable__subscribe_def perform_def
      Scheduler_method_def Subscription_add_def emit_def Let_def)

lemma Observable_subscribe_immediate:
  "Observable_subscribe \<lparr>scheduler = None\<rparr> hs w =
     (fresh w,
      w\<lparr>log := log w @ completion (fresh w) hs,
        consumers := (consumers w)
          (fresh w := \<lparr>callbacks = hs, stopped = True, closed = True, units = []\<rparr>),
        fresh := Suc (fresh w)\<rparr>)"
  by (simp add: Observable_subscribe_def EmptyObservable__subscribe_def perform_def
      Subscriber_method_Complete_eq Subscription_add_def emit_def Let_def completion_def)

subsection \<open>Executing actions\<close>

lemma fresh_run_action [simp]: "fresh (run_action h w) = fresh w"
  by (simp add: run_action_eq Subscriber_method_Complete_eq emit_def Action_close_def Let_def
      split: option.splits)

lemma fresh_fold_run_action [simp]: "fresh (fold run_action xs w) = fresh w"
  by (induction xs arbitrary: w) simp_all

lemma fresh_advance [simp]: "fresh (advance s d w) = fresh w"
  by (simp add: advance_def Let_def)

lemma fold_run_action_untargeted:
  "untargeted r w \<Longrightarrow>
     untargeted r (fold run_action hs w) \<and>
     notifications r (fold run_action hs w) = notifications r w \<and>
     fresh (fold run_action hs w) = fresh w"
  by (induction hs arbitrary: w) (simp_all add: run_action_untargeted)

lemma run_action_attached_other:
  assumes "attached r hs a w" and "h \<noteq> handle a"
  shows "attached r hs a (run_action h w)"
    and "notifications r (run_action h w) = notifications r w"
proof -
  show "attached r hs a (run_action h w)"
  proof (cases "find (\<lambda>b. handle b = h) (queue w)")
    case None
    then show ?thesis using assms by (simp add: run_action_eq)
  next
    case (Some b)
    then have b: "b \<in> set (queue w)" "handle b = h"
      by (auto simp: find_Some_iff)
    with assms have ba: "b \<noteq> a" and br: "subscriber (state b) \<noteq> r"
      and hb: "handle a \<notin> set (units (consumers w (subscriber (state b))))"
      by (auto simp: attached_def)
    show ?thesis
      using assms Some ba br hb
      by (auto simp: run_action_eq Subscriber_method_Complete_eq attached_def emit_def
          Action_close_def Let_def)
  qed
  show "notifications r (run_action h w) = notifications r w"
  proof (cases "find (\<lambda>b. handle b = h) (queue w)")
    case None
    then show ?thesis by (simp add: run_action_eq)
  next
    case (Some b)
    then have b: "b \<in> set (queue w)" "handle b = h"
      by (auto simp: find_Some_iff)
    with assms have br: "subscriber (state b) \<noteq> r"
      by (auto simp: attached_def)
    show ?thesis
      using Some br
      by (auto simp: run_action_eq Subscriber_method_Complete_eq emit_def
          Action_close_def Let_def notifications_def)
  qed
qed

lemma find_attached:
  assumes "attached r hs a w"
  shows "find (\<lambda>b. handle b = handle a) (queue w) = Some a"
proof (cases "find (\<lambda>b. handle b = handle a) (queue w)")
  case None
  with assms show ?thesis by (auto simp: find_None_iff attached_def)
next
  case (Some b)
  then have "b \<in> set (queue w)" "handle b = handle a"
    by (auto simp: find_Some_iff)
  with assms have "b = a" by (auto simp: attached_def)
  with Some show ?thesis by simp
qed

lemma run_action_attached_self:
  assumes "attached r hs a w"
  shows "untargeted r (run_action (handle a) w)"
    and "notifications r (run_action (handle a) w) = notifications r w @ completion r hs"
  using assms find_attached [OF assms]
  by (auto simp: run_action_eq Subscriber_method_Complete_eq attached_def emit_def
      Action_close_def Let_def notifications_def untargeted_def completion_def)

lemma fold_run_action_attached:
  "attached r hs a w \<Longrightarrow>
     (if handle a \<in> set xs
      then untargeted r (fold run_action xs w) \<and>
           notifications r (fold run_action xs w) = notifications r w @ completion r hs
      else attached r hs a (fold run_action xs w) \<and>
           notifications r (fold run_action xs w) = notifications r w)"
proof (induction xs arbitrary: w)
  case Nil
  then show ?case by simp
next
  case (Cons x xs)
  show ?case
  proof (cases "x = handle a")
    case True
    with Cons.prems show ?thesis
      by (simp add: fold_run_action_untargeted run_action_attached_self)
  next
    case False
    with Cons.prems have "attached r hs a (run_action x w)"
      and "notifications r (run_action x w) = notifications r w"
      by (simp_all add: run_action_attached_other)
    with Cons.IH [of "run_action x w"] False show ?thesis
      by simp
  qed
qed

lemma advance_attached:
  assumes "attached r hs a w" and "owner a = s" and "due a \<le> now w s + d"
  shows "untargeted r (advance s d w)"
    and "notifications r (advance s d w) = notifications r w @ completion r hs"
proof -
  let ?w = "w\<lparr>now := (now w)(s := now w s + d)\<rparr>"
  let ?xs = "map handle (sort_key due (filter (\<lambda>a. owner a = s \<and> due a \<le> now w s + d) (queue w)))"
  have eq: "advance s d w = fold run_action ?xs ?w"
    by (simp add: advance_def Let_def)
  have att: "attached r hs a ?w"
    using assms(1) by (simp add: attached_def)
  have mem: "handle a \<in> set ?xs"
    using assms by (auto simp: attached_def)
  from fold_run_action_attached [OF att, of ?xs] mem
  show "untargeted r (advance s d w)"
    and "notifications r (advance s d w) = notifications r w @ completion r hs"
    by (simp_all add: eq notifications_def)
qed

lemma advance_untargeted:
  assumes "untargeted r w"
  shows "untargeted r (advance s d w)"
    and "notifications r (advance s d w) = notifications r w"
proof -
  let ?w = "w\<lparr>now := (now w)(s := now w s + d)\<rparr>"
  have "untargeted r ?w"
    using assms by (simp add: untargeted_def)
  from fold_run_action_untargeted [OF this]
  show "untargeted r (advance s d w)"
    and "notifications r (advance s d w) = notifications r w"
    by (simp_all add: advance_def Let_def notifications_def)
qed

lemma Subscription_close_untargeted:
  assumes "untargeted r w"
  shows "untargeted r (Subscription_close x w)"
    and "notifications r (Subscription_close x w) = notifications r w"
    and "fresh (Subscription_close x w) = fresh w"
  using assms by (auto simp: Subscription_close_eq untargeted_def notifications_def)

subsection \<open>Attaching and what follows\<close>

lemma attached_after_subscribe:
  assumes "allocated w"
  shows "attached (fresh w) hs
           \<lparr>handle = Suc (fresh w), owner = s, due = now w s, work = Fn_dispatch,
            state = \<lparr>subscriber = fresh w\<rparr>\<rparr>
           (snd (Observable_subscribe \<lparr>scheduler = Some s\<rparr> hs w))"
  using assms
  by (fastforce simp: Observable_subscribe_scheduled attached_def allocated_def)

lemma notifications_after_subscribe:
  assumes "allocated w"
  shows "notifications (fresh w) (snd (Observable_subscribe \<lparr>scheduler = Some s\<rparr> hs w)) = []"
  using assms
  by (fastforce simp: Observable_subscribe_scheduled allocated_def notifications_def filter_empty_conv)

lemma Observable_subscribe_untargeted:
  assumes "untargeted r w" and "r < fresh w"
  shows "untargeted r (snd (Observable_subscribe this hs w))"
    and "notifications r (snd (Observable_subscribe this hs w)) = notifications r w"
    and "r < fresh (snd (Observable_subscribe this hs w))"
proof -
  obtain x where obs: "this = \<lparr>scheduler = x\<rparr>"
    by (cases this) simp
  show "untargeted r (snd (Observable_subscribe this hs w))"
    using assms
    by (cases x)
      (auto simp: obs Observable_subscribe_immediate Observable_subscribe_scheduled untargeted_def)
  show "notifications r (snd (Observable_subscribe this hs w)) = notifications r w"
    using assms
    by (cases x)
      (auto simp: obs Observable_subscribe_immediate Observable_subscribe_scheduled
        notifications_def completion_def)
  show "r < fresh (snd (Observable_subscribe this hs w))"
    using assms
    by (cases x)
      (auto simp: obs Observable_subscribe_immediate Observable_subscribe_scheduled)
qed

lemma step_untargeted:
  assumes "step w w'" and "untargeted r w" and "r < fresh w"
  shows "untargeted r w' \<and> r < fresh w' \<and> notifications r w' = notifications r w"
  using assms
proof cases
  case (step_advance s d)
  with assms(2,3) show ?thesis by (simp add: advance_untargeted)
next
  case (step_close x)
  with assms(2,3) show ?thesis by (simp add: Subscription_close_untargeted)
next
  case (step_subscribe this hs)
  with assms(2,3) show ?thesis by (simp add: Observable_subscribe_untargeted)
qed

lemma steps_untargeted:
  assumes "step\<^sup>*\<^sup>* w w'" and "untargeted r w" and "r < fresh w"
  shows "untargeted r w' \<and> r < fresh w' \<and> notifications r w' = notifications r w"
  using assms
proof (induction rule: rtranclp_induct)
  case base
  then show ?case by simp
next
  case (step y z)
  then have "untargeted r y \<and> r < fresh y \<and> notifications r y = notifications r w"
    by simp
  with step_untargeted [OF step.hyps(2), of r] show ?case
    by simp
qed

lemma close_attached:
  assumes "attached r hs a w"
  shows "untargeted r (Subscription_close r w)"
    and "notifications r (Subscription_close r w) = notifications r w"
    and "fresh (Subscription_close r w) = fresh w"
  using assms
  by (auto simp: Subscription_close_eq attached_def untargeted_def notifications_def)

subsection \<open>Worlds that started empty\<close>

lemma tidy_allocated: "tidy w \<Longrightarrow> allocated w"
  by (simp add: tidy_def allocated_def)

lemma tidy_initial: "tidy initial"
  by (simp add: tidy_def initial_def)

lemma tidy_subscribe:
  assumes "tidy w"
  shows "tidy (snd (Observable_subscribe this hs w))"
proof -
  obtain x where obs: "this = \<lparr>scheduler = x\<rparr>"
    by (cases this) simp
  show ?thesis
    using assms
    by (cases x)
      (auto simp: obs Observable_subscribe_immediate Observable_subscribe_scheduled
        tidy_def completion_def less_Suc_eq dest!: bspec)
qed

lemma tidy_close:
  assumes "tidy w"
  shows "tidy (Subscription_close r w)"
  using assms by (auto simp: Subscription_close_eq tidy_def)

lemma tidy_run_action:
  assumes "tidy w"
  shows "tidy (run_action h w)"
proof (cases "find (\<lambda>b. handle b = h) (queue w)")
  case None
  with assms show ?thesis by (simp add: run_action_eq)
next
  case (Some b)
  then have b: "b \<in> set (queue w)" "handle b = h"
    by (auto simp: find_Some_iff)
  with assms have "subscriber (state b) < fresh w"
    by (auto simp: tidy_def)
  with assms Some show ?thesis
    by (auto simp: run_action_eq Subscriber_method_Complete_eq tidy_def emit_def
          Action_close_def Let_def)
qed

lemma tidy_fold_run_action:
  "tidy w \<Longrightarrow> tidy (fold run_action xs w)"
  by (induction xs arbitrary: w) (simp_all add: tidy_run_action)

lemma tidy_advance:
  assumes "tidy w"
  shows "tidy (advance s d w)"
proof -
  have "tidy (w\<lparr>now := (now w)(s := now w s + d)\<rparr>)"
    using assms by (simp add: tidy_def)
  then show ?thesis
    by (simp add: advance_def Let_def tidy_fold_run_action)
qed

lemma tidy_step: "step w w' \<Longrightarrow> tidy w \<Longrightarrow> tidy w'"
  by (induction rule: step.induct)
    (simp_all add: tidy_advance tidy_close tidy_subscribe)

lemma tidy_steps: "step\<^sup>*\<^sup>* w w' \<Longrightarrow> tidy w \<Longrightarrow> tidy w'"
  by (induction rule: rtranclp_induct) (simp_all add: tidy_step)

lemma reachable_allocated: "step\<^sup>*\<^sup>* initial w \<Longrightarrow> allocated w"
  by (simp add: tidy_allocated tidy_steps [OF _ tidy_initial])

section \<open>Attachments of the empty producer\<close>

text \<open>
  C1. For every subscriber, \<^verbatim>\<open>_subscribe\<close> on a producer created without a scheduler makes
  exactly one call, \<^verbatim>\<open>complete()\<close> on that subscriber, and returns \<^verbatim>\<open>undefined\<close>. For every
  handler set, when \<^verbatim>\<open>subscribe\<close> returns, the world has already got that one \<^verbatim>\<open>complete()\<close>
  (and the run of the user's handler, if there is one) and nothing else, and closing the
  returned Subscription leaves the world as it is.
\<close>

theorem subscribe_without_scheduler_completes_at_once:
  "calls \<rho> (EmptyObservable__subscribe (result \<rho> (EmptyObservable_create [])) sub)
     = [Subscriber sub Complete] \<and>
   run h (EmptyObservable__subscribe (result \<rho> (EmptyObservable_create [])) sub) v
     = ((None, \<lparr>scheduler = None\<rparr>), snd (h (Subscriber sub Complete) v)) \<and>
   (case Observable_subscribe (result \<rho> (EmptyObservable_create [])) hs w of
      (r, w') \<Rightarrow>
        log w' = log w @ completion r hs \<and>
        length (filter (\<lambda>e. e = Called (Subscriber r Complete)) (completion r hs)) = 1 \<and>
        Subscription_close r w' = w')"
  by (simp add: EmptyObservable__subscribe_def EmptyObservable_create_def
      EmptyObservable_constructor_def optional_parameter_def Observable_subscribe_immediate
      Subscription_close_eq completion_def split: prod.splits)

text \<open>
  C3. Take a world whose identities were allocated in order, a scheduler \<open>s\<close> and a handler
  set, and subscribe to the empty producer created with \<open>s\<close>; let \<open>r\<close> be the consumer whose
  Subscription is returned. Then (1) the consumer has not been notified when \<^verbatim>\<open>subscribe\<close>
  returns; (2) stepping \<open>s\<close>, by the scheduled delay \<open>0\<close> or by more, notifies it of completion
  exactly once, and whatever happens afterwards it is not notified again; (3) if the returned
  Subscription is closed before \<open>s\<close> is stepped, then whatever happens afterwards the
  consumer is never notified.
\<close>

theorem scheduled_completion_is_deferred_and_cancellable:
  assumes "allocated w"
    and "Observable_subscribe (result \<rho> (EmptyObservable_create [Some s])) hs w = (r, w1)"
  shows "notifications r w1 = [] \<and>
         notifications r (advance s d w1) = completion r hs \<and>
         (\<forall>w'. step\<^sup>*\<^sup>* (advance s d w1) w' \<longrightarrow> notifications r w' = completion r hs) \<and>
         (\<forall>w'. step\<^sup>*\<^sup>* (Subscription_close r w1) w' \<longrightarrow> notifications r w' = [])"
proof -
  let ?a = "\<lparr>handle = Suc (fresh w), owner = s, due = now w s, work = Fn_dispatch,
            state = \<lparr>subscriber = fresh w\<rparr>\<rparr>"
  have obs: "result \<rho> (EmptyObservable_create [Some s]) = \<lparr>scheduler = Some s\<rparr>"
    by (simp add: EmptyObservable_create_def EmptyObservable_constructor_def optional_parameter_def)
  have w1: "w1 = snd (Observable_subscribe \<lparr>scheduler = Some s\<rparr> hs w)"
    using assms(2) by (simp add: obs)
  have r: "r = fresh w"
    using assms(2) by (auto simp: obs Observable_subscribe_scheduled)
  have att: "attached r hs ?a w1"
    unfolding r w1 by (rule attached_after_subscribe [OF assms(1)])
  have none: "notifications r w1 = []"
    unfolding r w1 by (rule notifications_after_subscribe [OF assms(1)])
  have now: "now w1 s = now w s" and fresh: "fresh w1 = Suc (Suc r)"
    by (simp_all add: w1 r Observable_subscribe_scheduled)
  have adv: "untargeted r (advance s d w1)"
    "notifications r (advance s d w1) = completion r hs"
    using advance_attached [OF att, of s d] none now by simp_all
  have cls: "untargeted r (Subscription_close r w1)"
    "notifications r (Subscription_close r w1) = []"
    "fresh (Subscription_close r w1) = Suc (Suc r)"
    using close_attached [OF att] none fresh by simp_all
  have after: "notifications r w' = completion r hs" if "step\<^sup>*\<^sup>* (advance s d w1) w'" for w'
    using steps_untargeted [OF that adv(1)] adv(2) fresh by simp
  have closed: "notifications r w' = []" if "step\<^sup>*\<^sup>* (Subscription_close r w1) w'" for w'
    using steps_untargeted [OF that cls(1)] cls(2,3) by simp
  from none adv(2) after closed show ?thesis by blast
qed

text \<open>
  The statement at work: in the world \<open>one_pending\<close>, which is allocated in order and where
  an earlier attachment is still waiting for the scheduler \<open>7\<close>, a second subscription with
  a \<^verbatim>\<open>complete\<close> handler makes the consumer \<open>2\<close>. It has heard nothing after \<^verbatim>\<open>subscribe\<close>;
  one step of the scheduler gives it the call and the handler run; closed first, it hears
  nothing from that step.
\<close>

theorem scheduled_completion_witness:
  "allocated one_pending \<and>
   fst (Observable_subscribe
          (result (\<lambda>_. None) (EmptyObservable_create [Some 7] :: (nat, EmptyObservable) prog))
          \<lparr>on_next = False, on_error = False, on_complete = True\<rparr> one_pending) = 2 \<and>
   notifications 2 (snd (Observable_subscribe
          (result (\<lambda>_. None) (EmptyObservable_create [Some 7] :: (nat, EmptyObservable) prog))
          \<lparr>on_next = False, on_error = False, on_complete = True\<rparr> one_pending)) = [] \<and>
   notifications 2 (advance 7 0 (snd (Observable_subscribe
          (result (\<lambda>_. None) (EmptyObservable_create [Some 7] :: (nat, EmptyObservable) prog))
          \<lparr>on_next = False, on_error = False, on_complete = True\<rparr> one_pending)))
     = [Called (Subscriber 2 Complete), Handler 2 Complete] \<and>
   notifications 2 (advance 7 0 (Subscription_close 2 (snd (Observable_subscribe
          (result (\<lambda>_. None) (EmptyObservable_create [Some 7] :: (nat, EmptyObservable) prog))
          \<lparr>on_next = False, on_error = False, on_complete = True\<rparr> one_pending)))) = []"
proof -
  let ?hs = "\<lparr>on_next = False, on_error = False, on_complete = True\<rparr>"
  let ?P = "result (\<lambda>_. None) (EmptyObservable_create [Some 7] :: (nat, EmptyObservable) prog)"
  let ?w1 = "snd (Observable_subscribe ?P ?hs one_pending)"
  have A: "allocated one_pending"
    by (simp add: one_pending_def allocated_def initial_def Observable_subscribe_def
        EmptyObservable__subscribe_def perform_def Scheduler_method_def Subscription_add_def
        emit_def Let_def)
  have P: "?P = \<lparr>scheduler = Some 7\<rparr>"
    by (simp add: EmptyObservable_create_def EmptyObservable_constructor_def optional_parameter_def)
  have F: "fst (Observable_subscribe ?P ?hs one_pending) = 2"
    by (simp add: P one_pending_def initial_def Observable_subscribe_def
        EmptyObservable__subscribe_def perform_def Scheduler_method_def Subscription_add_def
        emit_def Let_def)
  have E: "Observable_subscribe ?P ?hs one_pending = (2, ?w1)"
    using F by (simp add: prod_eq_iff)
  have S: "step\<^sup>*\<^sup>* (Subscription_close 2 ?w1) (advance 7 0 (Subscription_close 2 ?w1))"
    by (rule r_into_rtranclp) (rule step_advance)
  from scheduled_completion_is_deferred_and_cancellable [OF A E, of 0] S A F show ?thesis
    by (simp add: completion_def)
qed

end
